theory Spec2Isabelle
  imports Complex_Main "HOL-Library.AList"
begin

text \<open>
  json-px: JSON Pointer evaluation (RFC 6901) and JSON Patch operations (RFC 6902).
  The development follows the three source files: helpers.ts (\<open>isObject\<close>,
  \<open>interpretPath\<close>, \<open>unescapeToken\<close>, \<open>isEqual\<close>), pointer.ts (\<open>escapeToken\<close>,
  \<open>evaluate\<close>) and patch.ts (\<open>add\<close>, \<open>remove\<close>, \<open>replace\<close>, \<open>move\<close>, \<open>test\<close>,
  \<open>copy\<close>, \<open>apply\<close>, \<open>applyPatch\<close>). Arrays and objects are cells of an explicit heap,
  every \<open>throw\<close> is an error value, and every function that can allocate or write
  returns the heap.
\<close>

section \<open>JSON Pointer tokens (helpers.ts, pointer.ts)\<close>

text \<open>
  Strings are lists of characters. The four regular expressions of the source are literal
  patterns of one or two characters with the \<open>g\<close> flag, so \<open>String.replace\<close> scans
  from the left and replaces every non-overlapping match.
\<close>

text \<open>\<open>str.replace(/a/g, r)\<close> for a one-character pattern.\<close>

fun replaceChar :: "char \<Rightarrow> string \<Rightarrow> string \<Rightarrow> string" where
  "replaceChar a r [] = []"
| "replaceChar a r (x # xs) =
     (if x = a then r @ replaceChar a r xs else x # replaceChar a r xs)"

text \<open>\<open>str.replace(/ab/g, r)\<close> for a two-character pattern.\<close>

fun replacePair :: "char \<Rightarrow> char \<Rightarrow> string \<Rightarrow> string \<Rightarrow> string" where
  "replacePair a b r (x # y # zs) =
     (if x = a \<and> y = b then r @ replacePair a b r zs else x # replacePair a b r (y # zs))"
| "replacePair a b r zs = zs"

text \<open>pointer.ts: \<open>str.replace(/~/g, '~0').replace(/\//g, '~1')\<close>.\<close>

definition escapeToken :: "string \<Rightarrow> string" where
  "escapeToken str = replaceChar CHR ''/'' ''~1'' (replaceChar CHR ''~'' ''~0'' str)"

text \<open>helpers.ts: \<open>str.replace(/~1/g, '/').replace(/~0/g, '~')\<close>.\<close>

definition unescapeToken :: "string \<Rightarrow> string" where
  "unescapeToken str =
     replacePair CHR ''~'' CHR ''0'' ''~'' (replacePair CHR ''~'' CHR ''1'' ''/'' str)"

text \<open>\<open>str.split(c)\<close>: always at least one piece.\<close>

fun split :: "char \<Rightarrow> string \<Rightarrow> string list" where
  "split c [] = [[]]"
| "split c (x # xs) =
     (if x = c then [] # split c xs
      else (case split c xs of p # ps \<Rightarrow> (x # p) # ps | [] \<Rightarrow> [[x]]))"

text \<open>\<open>parts.join(sep)\<close>.\<close>

fun join :: "string \<Rightarrow> string list \<Rightarrow> string" where
  "join sep [] = []"
| "join sep [p] = p"
| "join sep (p # q # ps) = p @ sep @ join sep (q # ps)"

text \<open>
  helpers.ts \<open>interpretPath\<close>. The source returns the pointer itself too; the record
  keeps the three computed members.
\<close>

record interpreted =
  paths :: "string list"
  parent :: string
  key :: string

definition interpretPath :: "string \<Rightarrow> interpreted" where
  "interpretPath pointer =
     (let ps = map unescapeToken (split CHR ''/'' pointer) in
      \<lparr> paths = ps,
        parent = (if length ps \<ge> 2 then ps ! (length ps - 2) else ''''),
        key = (if length ps > 1 then ps ! (length ps - 1) else '''') \<rparr>)"

text \<open>The test \<open>/^\d+$/\<close>: one or more characters, all of them decimal digits.\<close>

definition isDigit :: "char \<Rightarrow> bool" where
  "isDigit c = (c \<in> set ''0123456789'')"

definition isIndex :: "string \<Rightarrow> bool" where
  "isIndex token = (token \<noteq> [] \<and> list_all isDigit token)"

text \<open>
  \<open>parseInt(token, 10)\<close> and \<open>Number(token)\<close> on a string of decimal digits. The source
  computes in double precision, which is exact below \<open>2^53\<close>; an array is shorter than
  \<open>2^32\<close>, so every comparison of the result with an array length comes out as it does
  for the exact natural number.
\<close>

definition digitValue :: "char \<Rightarrow> nat" where
  "digitValue c = of_char c - of_char CHR ''0''"

definition parseInt :: "string \<Rightarrow> nat" where
  "parseInt token = foldl (\<lambda>n c. 10 * n + digitValue c) 0 token"

section \<open>Values and the object heap\<close>

text \<open>
  A JavaScript number is \<open>NaN\<close>, an infinity, or a finite value; the two zeros are
  strictly equal and both falsy, so they are one value here.
\<close>

datatype number = NaN | PosInf | NegInf | Fin rat

text \<open>
  A value is a primitive or a reference to an array or object. Arrays and objects live in
  the heap, so that mutation in place (\<open>push\<close>, \<open>splice\<close>, assignment, \<open>delete\<close>) and
  identity of references are visible. A reference is the cell's index in the heap.
\<close>

datatype val = VUndefined | VNull | VBool bool | VNum number | VStr string | VRef nat

text \<open>
  An array is the list of its elements (no holes); an object is the list of its own
  members in insertion order. Members inherited from \<open>Object.prototype\<close> are outside
  the model, and so are values that JSON does not have (functions, symbols, dates).
\<close>

datatype cell = CArr "val list" | CObj "(string \<times> val) list"

type_synonym heap = "cell list"

text \<open>
  Every \<open>throw\<close> of the source, under the name the specification gives it:
  \<^item> \<open>RootNotObject\<close>: 'The root object is not a valid JSON object.'
  \<^item> \<open>InvalidPointer\<close>: 'Invalid JSON Pointer: ...' (and 'Invalid JSON pointer: ...' in add)
  \<^item> \<open>UnresolvedPointer\<close>: 'Unable to resolve pointer: ...'
  \<^item> \<open>InvalidArrayReference\<close>: 'Invalid reference: '-' points to a non-existent array element.'
  \<^item> \<open>InvalidArrayIndex\<close>: 'Invalid array index: ...'
  \<^item> \<open>ArrayIndexOutOfBounds\<close>: 'Array index out of bounds: ...'
  \<^item> \<open>KeyNotFound\<close>: 'Key not found: ...'
  \<^item> \<open>UnresolvableToken\<close>: 'Cannot resolve token ... in non-object, non-array value.'
  \<^item> \<open>InvalidAddTarget\<close>: 'Invalid pointer operation on target.' and
    'Invalid add operation for pointer: ...'
  \<^item> \<open>IndexTooLarge\<close>: 'Pointer index: ... must not be greater than target array length: ...'
  \<^item> \<open>InvalidRemoveTarget\<close>: the five throws of remove
  \<^item> \<open>TestMismatch\<close>: 'Test operation failed due to value mismatch.'
  and three errors of the runtime: \<open>TypeError\<close> (calling \<open>split\<close> on a value that has no
  such method), \<open>DataCloneError\<close> (structuredClone) and \<open>RangeError\<close> (recursion deeper
  than the stack).
\<close>

datatype error =
    TypeError | DataCloneError | RangeError
  | RootNotObject | InvalidPointer | UnresolvedPointer
  | InvalidArrayReference | InvalidArrayIndex | ArrayIndexOutOfBounds
  | KeyNotFound | UnresolvableToken
  | InvalidAddTarget | IndexTooLarge | InvalidRemoveTarget | TestMismatch

definition cellAt :: "heap \<Rightarrow> nat \<Rightarrow> cell option" where
  "cellAt h a = (if a < length h then Some (h ! a) else None)"

text \<open>\<open>typeof\<close>.\<close>

fun typeof :: "val \<Rightarrow> string" where
  "typeof VUndefined = ''undefined''"
| "typeof VNull = ''object''"
| "typeof (VBool b) = ''boolean''"
| "typeof (VNum n) = ''number''"
| "typeof (VStr s) = ''string''"
| "typeof (VRef a) = ''object''"

text \<open>
  The elements of an array, \<open>Array.isArray\<close>, and the own members of an object. A
  reference outside the heap has no members.
\<close>

definition arrayOf :: "heap \<Rightarrow> val \<Rightarrow> val list option" where
  "arrayOf h t =
     (case t of
        VRef a \<Rightarrow> (case cellAt h a of Some (CArr xs) \<Rightarrow> Some xs | _ \<Rightarrow> None)
      | _ \<Rightarrow> None)"

definition isArray :: "heap \<Rightarrow> val \<Rightarrow> bool" where
  "isArray h t = (arrayOf h t \<noteq> None)"

definition members :: "heap \<Rightarrow> val \<Rightarrow> (string \<times> val) list" where
  "members h t =
     (case t of
        VRef a \<Rightarrow> (case cellAt h a of Some (CObj kvs) \<Rightarrow> kvs | _ \<Rightarrow> [])
      | _ \<Rightarrow> [])"

text \<open>helpers.ts: \<open>typeof t === 'object' && !Array.isArray(t) && t !== null\<close>.\<close>

definition isObject :: "heap \<Rightarrow> val \<Rightarrow> bool" where
  "isObject h t = (typeof t = ''object'' \<and> \<not> isArray h t \<and> t \<noteq> VNull)"

text \<open>Truthiness, as tested by \<open>!x\<close>.\<close>

fun truthy :: "val \<Rightarrow> bool" where
  "truthy VUndefined = False"
| "truthy VNull = False"
| "truthy (VBool b) = b"
| "truthy (VNum n) = (n \<noteq> NaN \<and> n \<noteq> Fin 0)"
| "truthy (VStr s) = (s \<noteq> [])"
| "truthy (VRef a) = True"

text \<open>\<open>a === b\<close>: references by identity, primitives by value, \<open>NaN\<close> equal to nothing.\<close>

definition strictEq :: "val \<Rightarrow> val \<Rightarrow> bool" where
  "strictEq a b = (a = b \<and> a \<noteq> VNum NaN)"

definition isNaN :: "val \<Rightarrow> bool" where
  "isNaN a = (a = VNum NaN)"

text \<open>\<open>Object.hasOwn(o, k)\<close> and \<open>o[k]\<close> on own members; \<open>xs[i]\<close> on an array.\<close>

definition hasOwn :: "(string \<times> val) list \<Rightarrow> string \<Rightarrow> bool" where
  "hasOwn kvs k = (map_of kvs k \<noteq> None)"

definition getProp :: "(string \<times> val) list \<Rightarrow> string \<Rightarrow> val" where
  "getProp kvs k = (case map_of kvs k of Some v \<Rightarrow> v | None \<Rightarrow> VUndefined)"

definition getIndex :: "val list \<Rightarrow> nat \<Rightarrow> val" where
  "getIndex xs i = (if i < length xs then xs ! i else VUndefined)"

section \<open>Pointer evaluation (pointer.ts)\<close>

text \<open>\<open>Array.prototype.reduce\<close> with a callback that may throw: the first throw ends it.\<close>

fun reduce :: "('a \<Rightarrow> 'b \<Rightarrow> error + 'a) \<Rightarrow> 'b list \<Rightarrow> 'a \<Rightarrow> error + 'a" where
  "reduce f [] acc = Inr acc"
| "reduce f (x # xs) acc = (case f acc x of Inl e \<Rightarrow> Inl e | Inr acc' \<Rightarrow> reduce f xs acc')"

text \<open>The callback of the reduce in \<open>evaluate\<close> (pointer.ts lines 29 to 79).\<close>

definition evaluateStep :: "heap \<Rightarrow> val \<Rightarrow> string \<Rightarrow> error + val" where
  "evaluateStep h acc token =
     (if \<not> truthy acc then Inl UnresolvedPointer
      else case arrayOf h acc of
        Some xs \<Rightarrow>
          (if token = ''-'' then Inl InvalidArrayReference
           else if \<not> isIndex token then Inl InvalidArrayIndex
           else let index = parseInt token in
             if index \<ge> length xs then Inl ArrayIndexOutOfBounds
             else Inr (xs ! index))
      | None \<Rightarrow>
          (if isObject h acc then
             (if \<not> hasOwn (members h acc) token then Inl KeyNotFound
              else Inr (getProp (members h acc) token))
           else Inl UnresolvableToken))"

text \<open>
  pointer.ts \<open>evaluate(object, pointer)\<close>. patch.ts passes values of any kind in both
  positions, so both parameters are values; \<open>interpretPath\<close> calls \<open>pointer.split\<close>,
  which only a string has, and anything else throws a TypeError there.
\<close>

definition evaluate :: "heap \<Rightarrow> val \<Rightarrow> val \<Rightarrow> error + val" where
  "evaluate h object pointer =
     (case pointer of
        VStr p \<Rightarrow>
          (let ps = paths (interpretPath p) in
           if \<not> isObject h object then Inl RootNotObject
           else if ps ! 0 \<noteq> '''' then Inl InvalidPointer
           else if length ps = 1 then Inr object
           else reduce (evaluateStep h) (drop 1 ps) object)
      | _ \<Rightarrow> Inl TypeError)"

section \<open>JSON trees, allocation and structuredClone\<close>

text \<open>
  A JSON document as a tree. \<open>alloc\<close> lays a tree out in the heap, children before their
  parent, and returns the value that stands for it (what \<open>JSON.parse\<close> or a literal does).
\<close>

datatype json =
    JUndefined | JNull | JBool bool | JNum number | JStr string
  | JArr "json list" | JObj "(string \<times> json) list"

fun alloc :: "json \<Rightarrow> heap \<Rightarrow> heap \<times> val"
  and allocList :: "json list \<Rightarrow> heap \<Rightarrow> heap \<times> val list"
  and allocMembers :: "(string \<times> json) list \<Rightarrow> heap \<Rightarrow> heap \<times> (string \<times> val) list" where
  "alloc JUndefined h = (h, VUndefined)"
| "alloc JNull h = (h, VNull)"
| "alloc (JBool b) h = (h, VBool b)"
| "alloc (JNum n) h = (h, VNum n)"
| "alloc (JStr s) h = (h, VStr s)"
| "alloc (JArr ts) h = (case allocList ts h of (h1, vs) \<Rightarrow> (h1 @ [CArr vs], VRef (length h1)))"
| "alloc (JObj kts) h = (case allocMembers kts h of (h1, kvs) \<Rightarrow> (h1 @ [CObj kvs], VRef (length h1)))"
| "allocList [] h = (h, [])"
| "allocList (t # ts) h =
     (case alloc t h of (h1, v) \<Rightarrow> (case allocList ts h1 of (h2, vs) \<Rightarrow> (h2, v # vs)))"
| "allocMembers [] h = (h, [])"
| "allocMembers ((k, t) # kts) h =
     (case alloc t h of (h1, v) \<Rightarrow> (case allocMembers kts h1 of (h2, kvs) \<Rightarrow> (h2, (k, v) # kvs)))"

text \<open>
  \<open>readback\<close> reads the tree below a value; the first argument bounds the depth, and the
  result is \<open>None\<close> when the heap below the value is deeper (in particular when it is
  cyclic) or a reference points outside the heap.
\<close>

fun sequence :: "'a option list \<Rightarrow> 'a list option" where
  "sequence [] = Some []"
| "sequence (x # xs) =
     (case x of None \<Rightarrow> None
      | Some y \<Rightarrow> (case sequence xs of None \<Rightarrow> None | Some ys \<Rightarrow> Some (y # ys)))"

fun readback :: "nat \<Rightarrow> heap \<Rightarrow> val \<Rightarrow> json option" where
  "readback n h VUndefined = Some JUndefined"
| "readback n h VNull = Some JNull"
| "readback n h (VBool b) = Some (JBool b)"
| "readback n h (VNum x) = Some (JNum x)"
| "readback n h (VStr s) = Some (JStr s)"
| "readback 0 h (VRef a) = None"
| "readback (Suc n) h (VRef a) =
     (case cellAt h a of
        None \<Rightarrow> None
      | Some (CArr vs) \<Rightarrow> map_option JArr (sequence (map (readback n h) vs))
      | Some (CObj kvs) \<Rightarrow>
          map_option JObj
            (sequence (map (\<lambda>(k, v). map_option (Pair k) (readback n h v)) kvs)))"

text \<open>
  \<open>structuredClone\<close> of the runtime: a deep copy in fresh cells; a primitive is returned as
  it is. A chain of distinct cells is no longer than the heap, so the bound \<open>length h\<close>
  covers every value that reads back as a tree (\<open>readback_bound\<close> below). The copy is
  laid out as a tree: sharing inside the original is not kept, and a cyclic value, which
  no JSON document is, is refused.
\<close>

definition structuredClone :: "heap \<Rightarrow> val \<Rightarrow> error + heap \<times> val" where
  "structuredClone h v =
     (case readback (length h) h v of
        None \<Rightarrow> Inl DataCloneError
      | Some t \<Rightarrow> Inr (alloc t h))"

section \<open>Structural equality (helpers.ts)\<close>

text \<open>\<open>xs.every(f)\<close> with a callback that may fail to return: it stops at the first false.\<close>

fun every :: "('a \<Rightarrow> bool option) \<Rightarrow> 'a list \<Rightarrow> bool option" where
  "every f [] = Some True"
| "every f (x # xs) =
     (case f x of None \<Rightarrow> None | Some False \<Rightarrow> Some False | Some True \<Rightarrow> every f xs)"

text \<open>
  helpers.ts \<open>isEqual\<close>. The recursion follows the heap, which may be cyclic; the first
  argument bounds the depth of the recursion, and \<open>None\<close> is the call that never returns
  normally (in the source, the stack overflows).
\<close>

fun isEqualDepth :: "nat \<Rightarrow> heap \<Rightarrow> val \<Rightarrow> val \<Rightarrow> bool option" where
  "isEqualDepth 0 h a b = None"
| "isEqualDepth (Suc n) h a b =
     (if strictEq a b then Some True
      else if isNaN a \<and> isNaN b then Some True
      else if typeof a \<noteq> typeof b then Some False
      else case arrayOf h a of
        Some xs \<Rightarrow>
          (case arrayOf h b of
             None \<Rightarrow> Some False
           | Some ys \<Rightarrow>
               if length xs \<noteq> length ys then Some False
               else every (\<lambda>idx. isEqualDepth n h (xs ! idx) (getIndex ys idx)) [0 ..< length xs])
      | None \<Rightarrow>
          (if isObject h a \<and> isObject h b then
             (let aKeys = map fst (members h a); bKeys = map fst (members h b) in
              if length aKeys \<noteq> length bKeys then Some False
              else every (\<lambda>key. if \<not> hasOwn (members h b) key then Some False
                                else isEqualDepth n h (getProp (members h a) key)
                                                     (getProp (members h b) key)) aKeys)
           else Some False))"

text \<open>The depth allowed is one more than the number of cells.\<close>

definition isEqual :: "heap \<Rightarrow> val \<Rightarrow> val \<Rightarrow> bool option" where
  "isEqual h a b = isEqualDepth (Suc (length h)) h a b"

section \<open>Patch operations (patch.ts)\<close>

text \<open>
  Every operation takes the heap and returns the heap after the call with either the error
  thrown or the value returned. The operation object is passed as its members.
\<close>

text \<open>An object literal allocates a cell; a write through a reference replaces a cell.\<close>

definition newCell :: "heap \<Rightarrow> cell \<Rightarrow> heap \<times> val" where
  "newCell h c = (h @ [c], VRef (length h))"

definition setCell :: "heap \<Rightarrow> val \<Rightarrow> cell \<Rightarrow> heap" where
  "setCell h target c = (case target of VRef a \<Rightarrow> h[a := c] | _ \<Rightarrow> h)"

text \<open>
  patch.ts \<open>add(object, {path, value})\<close>. The call of \<open>evaluate\<close> is written as in the
  source, \<open>evaluate(maybeValidPath.join('/'), objectClone)\<close>: the joined string is the
  first argument (the parameter \<open>object\<close> of \<open>evaluate\<close>) and the clone is the second
  (its parameter \<open>pointer\<close>). \<open>target.push(value)\<close>, \<open>target.splice(n, 0, value)\<close> and
  \<open>target[lastEl] = value\<close> write the cell that \<open>target\<close> refers to.
\<close>

definition add :: "heap \<Rightarrow> val \<Rightarrow> string \<Rightarrow> val \<Rightarrow> heap \<times> (error + val)" where
  "add h object path value =
     (let ps = paths (interpretPath path) in
      case structuredClone h object of
        Inl e \<Rightarrow> (h, Inl e)
      | Inr (h1, objectClone) \<Rightarrow>
          if ps ! 0 \<noteq> '''' then (h1, Inl InvalidPointer)
          else if length ps = 1 then
            (case newCell h1 (CObj [(''value'', value)]) of (h2, r) \<Rightarrow> (h2, Inr r))
          else let lastEl = last ps in
            if lastEl = '''' then (h1, Inl InvalidPointer)
            else case evaluate h1 (VStr (join ''/'' (butlast ps))) objectClone of
              Inl e \<Rightarrow> (h1, Inl e)
            | Inr target \<Rightarrow>
                if lastEl = ''-'' then
                  (case arrayOf h1 target of
                     None \<Rightarrow> (h1, Inl InvalidAddTarget)
                   | Some xs \<Rightarrow> (setCell h1 target (CArr (xs @ [value])), Inr objectClone))
                else if isIndex lastEl then
                  (case arrayOf h1 target of
                     None \<Rightarrow> (h1, Inl InvalidAddTarget)
                   | Some xs \<Rightarrow>
                       if length xs < parseInt lastEl then (h1, Inl IndexTooLarge)
                       else (setCell h1 target
                               (CArr (take (parseInt lastEl) xs @ value # drop (parseInt lastEl) xs)),
                             Inr objectClone))
                else if isObject h1 target then
                  (setCell h1 target (CObj (AList.update lastEl value (members h1 target))),
                   Inr objectClone)
                else (h1, Inl InvalidAddTarget))"

text \<open>
  patch.ts \<open>remove(object, {path})\<close>, with the same call of \<open>evaluate\<close>.
  \<open>!target[index]\<close> is the truthiness of the element (undefined beyond the end);
  \<open>target.splice(index, 1)\<close> and \<open>delete target[lastEl]\<close> write the cell of \<open>target\<close>.
\<close>

definition remove :: "heap \<Rightarrow> val \<Rightarrow> string \<Rightarrow> heap \<times> (error + val)" where
  "remove h object path =
     (let ps = paths (interpretPath path) in
      case structuredClone h object of
        Inl e \<Rightarrow> (h, Inl e)
      | Inr (h1, objectClone) \<Rightarrow>
          if ps ! 0 \<noteq> '''' then (h1, Inl InvalidPointer)
          else if length ps = 1 then
            (case newCell h1 (CObj []) of (h2, r) \<Rightarrow> (h2, Inr r))
          else let lastEl = last ps in
            if lastEl = '''' then (h1, Inr object)
            else if lastEl = ''-'' then (h1, Inl InvalidRemoveTarget)
            else case evaluate h1 (VStr (join ''/'' (butlast ps))) objectClone of
              Inl e \<Rightarrow> (h1, Inl e)
            | Inr target \<Rightarrow>
                if isIndex lastEl then
                  (case arrayOf h1 target of
                     None \<Rightarrow> (h1, Inl InvalidRemoveTarget)
                   | Some xs \<Rightarrow>
                       let index = parseInt lastEl in
                       if \<not> truthy (getIndex xs index) then (h1, Inl InvalidRemoveTarget)
                       else (setCell h1 target (CArr (take index xs @ drop (Suc index) xs)),
                             Inr objectClone))
                else if isObject h1 target then
                  (if getProp (members h1 target) lastEl = VUndefined
                   then (h1, Inl InvalidRemoveTarget)
                   else (setCell h1 target (CObj (AList.delete lastEl (members h1 target))),
                         Inr objectClone))
                else (h1, Inl InvalidRemoveTarget))"

text \<open>patch.ts \<open>replace\<close>: \<open>add(remove(object, ...), ...)\<close> at the same path.\<close>

definition replace :: "heap \<Rightarrow> val \<Rightarrow> string \<Rightarrow> val \<Rightarrow> heap \<times> (error + val)" where
  "replace h object path value =
     (case remove h object path of
        (h1, Inl e) \<Rightarrow> (h1, Inl e)
      | (h1, Inr removed) \<Rightarrow> add h1 removed path value)"

text \<open>
  patch.ts \<open>move\<close>, \<open>test\<close> and \<open>copy\<close>; their calls are \<open>evaluate(operation.from, object)\<close>
  and \<open>evaluate(operation.path, object)\<close>, the string first, as in the source.
\<close>

definition move :: "heap \<Rightarrow> val \<Rightarrow> string \<Rightarrow> string \<Rightarrow> heap \<times> (error + val)" where
  "move h object from path =
     (case evaluate h (VStr from) object of
        Inl e \<Rightarrow> (h, Inl e)
      | Inr value \<Rightarrow>
          (case remove h object from of
             (h1, Inl e) \<Rightarrow> (h1, Inl e)
           | (h1, Inr removed) \<Rightarrow> add h1 removed path value))"

definition test :: "heap \<Rightarrow> val \<Rightarrow> string \<Rightarrow> val \<Rightarrow> heap \<times> (error + val)" where
  "test h object path value =
     (case evaluate h (VStr path) object of
        Inl e \<Rightarrow> (h, Inl e)
      | Inr evaluateValue \<Rightarrow>
          (case isEqual h evaluateValue value of
             None \<Rightarrow> (h, Inl RangeError)
           | Some eq \<Rightarrow> if \<not> eq then (h, Inl TestMismatch) else (h, Inr object)))"

definition copy :: "heap \<Rightarrow> val \<Rightarrow> string \<Rightarrow> string \<Rightarrow> heap \<times> (error + val)" where
  "copy h object from path =
     (if from = path then (h, Inr object)
      else case evaluate h (VStr from) object of
        Inl e \<Rightarrow> (h, Inl e)
      | Inr value \<Rightarrow> add h object path value)"

text \<open>
  types.ts \<open>Operation\<close>. \<open>MoveOp\<close> and \<open>CopyOp\<close> carry \<open>from\<close> and then \<open>path\<close>.
  \<open>OtherOp\<close> is an operation whose \<open>op\<close> is none of the six, for the \<open>default\<close> branch
  of \<open>apply\<close>.
\<close>

datatype operation =
    AddOp string val
  | RemoveOp string
  | ReplaceOp string val
  | MoveOp string string
  | CopyOp string string
  | TestOp string val
  | OtherOp

text \<open>patch.ts \<open>apply\<close> (the name is a keyword here).\<close>

fun applyOperation :: "heap \<Rightarrow> val \<Rightarrow> operation \<Rightarrow> heap \<times> (error + val)" where
  "applyOperation h object (AddOp path value) = add h object path value"
| "applyOperation h object (RemoveOp path) = remove h object path"
| "applyOperation h object (CopyOp from path) = copy h object from path"
| "applyOperation h object (ReplaceOp path value) = replace h object path value"
| "applyOperation h object (MoveOp from path) = move h object from path"
| "applyOperation h object (TestOp path value) = test h object path value"
| "applyOperation h object OtherOp = (h, Inr object)"

text \<open>
  patch.ts \<open>applyPatch\<close>: \<open>operations.reduce((object, operation) => apply(object,
  operation), object)\<close>, where a throw ends the reduce, and then the hooks. A hook is a
  callback that may write the heap and may throw.
\<close>

fun reduceOperations :: "heap \<Rightarrow> val \<Rightarrow> operation list \<Rightarrow> heap \<times> (error + val)" where
  "reduceOperations h object [] = (h, Inr object)"
| "reduceOperations h object (operation # operations) =
     (case applyOperation h object operation of
        (h1, Inl e) \<Rightarrow> (h1, Inl e)
      | (h1, Inr object1) \<Rightarrow> reduceOperations h1 object1 operations)"

type_synonym hook = "heap \<Rightarrow> val \<Rightarrow> operation list \<Rightarrow> heap \<times> error option"

fun forEachHook :: "hook list \<Rightarrow> heap \<Rightarrow> val \<Rightarrow> operation list \<Rightarrow> heap \<times> error option" where
  "forEachHook [] h result operations = (h, None)"
| "forEachHook (hook # hooks) h result operations =
     (case hook h result operations of
        (h1, Some e) \<Rightarrow> (h1, Some e)
      | (h1, None) \<Rightarrow> forEachHook hooks h1 result operations)"

definition applyPatch ::
  "heap \<Rightarrow> val \<Rightarrow> operation list \<Rightarrow> hook list option \<Rightarrow> heap \<times> (error + val)" where
  "applyPatch h object operations hooks =
     (case reduceOperations h object operations of
        (h1, Inl e) \<Rightarrow> (h1, Inl e)
      | (h1, Inr result) \<Rightarrow>
          (case hooks of
             None \<Rightarrow> (h1, Inr result)
           | Some hs \<Rightarrow>
               if length hs > 0 then
                 (case forEachHook hs h1 result operations of
                    (h2, Some e) \<Rightarrow> (h2, Inl e)
                  | (h2, None) \<Rightarrow> (h2, Inr result))
               else (h1, Inr result)))"

section \<open>Notions used in the statements\<close>

text \<open>What escapeToken makes of one character: \<open>~\<close> as \<open>~0\<close>, \<open>/\<close> as \<open>~1\<close>.\<close>

definition escapeChar :: "char \<Rightarrow> string" where
  "escapeChar c = (if c = CHR ''~'' then ''~0'' else if c = CHR ''/'' then ''~1'' else [c])"

text \<open>A primitive is any value that is not a reference: undefined, null, a boolean, a number, a string.\<close>

fun isPrimitive :: "val \<Rightarrow> bool" where
  "isPrimitive (VRef a) = False"
| "isPrimitive v = True"

text \<open>
  \<open>extends h h'\<close>: every cell of \<open>h\<close> is in \<open>h'\<close> at the same address with the same
  content; \<open>h'\<close> may have new cells behind them. Nothing that existed in \<open>h\<close> was written.
\<close>

definition extends :: "heap \<Rightarrow> heap \<Rightarrow> bool" where
  "extends h h' = (take (length h) h' = h)"

text \<open>\<open>fresh h v\<close>: \<open>v\<close> is a reference to a cell that did not exist in \<open>h\<close>.\<close>

fun fresh :: "heap \<Rightarrow> val \<Rightarrow> bool" where
  "fresh h (VRef a) = (length h \<le> a)"
| "fresh h v = False"



text \<open>
  One step of a left fold of \<open>apply\<close> over the operations, on the heap and the result so
  far: an error stays, a document is passed to the next operation.
\<close>

definition foldStep :: "heap \<times> (error + val) \<Rightarrow> operation \<Rightarrow> heap \<times> (error + val)" where
  "foldStep st operation =
     (case st of
        (h, Inl e) \<Rightarrow> (h, Inl e)
      | (h, Inr object) \<Rightarrow> applyOperation h object operation)"

text \<open>The document of the example in the specification: \<open>{a:1, b:{c:2, d:[3,4]}}\<close>.\<close>

definition exampleDocument :: json where
  "exampleDocument =
     JObj [(''a'', JNum (Fin 1)),
           (''b'', JObj [(''c'', JNum (Fin 2)), (''d'', JArr [JNum (Fin 3), JNum (Fin 4)])])]"

definition exampleHeap :: heap where
  "exampleHeap = fst (alloc exampleDocument [])"

definition exampleRef :: val where
  "exampleRef = snd (alloc exampleDocument [])"

text \<open>patch.spec.ts, \<open>initialObject\<close>: \<open>{a:1, b:{c:2, d:[3,4]}, e:[5,6]}\<close>.\<close>

definition initialObject :: json where
  "initialObject =
     JObj [(''a'', JNum (Fin 1)),
           (''b'', JObj [(''c'', JNum (Fin 2)), (''d'', JArr [JNum (Fin 3), JNum (Fin 4)])]),
           (''e'', JArr [JNum (Fin 5), JNum (Fin 6)])]"

definition initialHeap :: heap where
  "initialHeap = fst (alloc initialObject [])"

definition initialRef :: val where
  "initialRef = snd (alloc initialObject [])"

text \<open>The document \<open>{e:[0,6]}\<close>, at \<open>VRef 1\<close>: an array whose first element is falsy.\<close>

definition falsyHeap :: heap where
  "falsyHeap = [CArr [VNum (Fin 0), VNum (Fin 6)], CObj [(''e'', VRef 0)]]"

section \<open>Properties\<close>

subsection \<open>Token escaping\<close>

lemma replacePair_other:
  "x \<noteq> a \<Longrightarrow> replacePair a b r (x # s) = x # replacePair a b r s"
  by (cases s) simp_all

lemma replacePair_single:
  "ys = [] \<or> hd ys \<noteq> b \<Longrightarrow> replacePair a b r (x # ys) = x # replacePair a b r ys"
  by (cases ys) auto

lemma replacePair_append:
  "ys = [] \<or> hd ys \<noteq> b \<Longrightarrow>
   replacePair a b r (xs @ ys) = replacePair a b r xs @ replacePair a b r ys"
  by (induction a b r xs rule: replacePair.induct) (simp_all add: replacePair_single)

lemma escapeToken_Nil: "escapeToken [] = []"
  by (simp add: escapeToken_def)

lemma escapeToken_Cons: "escapeToken (c # s) = escapeChar c @ escapeToken s"
  by (simp add: escapeToken_def escapeChar_def)

lemma unescape_first_pass:
  "replacePair CHR ''~'' CHR ''1'' ''/'' (escapeToken s) = replaceChar CHR ''~'' ''~0'' s"
proof (induction s)
  case Nil
  show ?case by (simp add: escapeToken_Nil)
next
  case (Cons c s)
  then show ?case
    by (simp add: escapeToken_Cons escapeChar_def replacePair_other)
qed

lemma unescape_second_pass:
  "replacePair CHR ''~'' CHR ''0'' ''~'' (replaceChar CHR ''~'' ''~0'' s) = s"
  by (induction s) (simp_all add: replacePair_other)

lemma unescape_escape: "unescapeToken (escapeToken s) = s"
  by (simp add: unescapeToken_def unescape_first_pass unescape_second_pass)

lemma unescapeToken_tilde01:
  "unescapeToken (u @ ''~01'' @ w) = unescapeToken u @ ''~1'' @ unescapeToken w"
proof -
  have p1: "replacePair CHR ''~'' CHR ''1'' ''/'' (u @ ''~01'' @ w)
      = replacePair CHR ''~'' CHR ''1'' ''/'' u @ ''~01'' @ replacePair CHR ''~'' CHR ''1'' ''/'' w"
    by (simp add: replacePair_append replacePair_other)
  show ?thesis
    unfolding unescapeToken_def p1
    by (simp add: replacePair_append replacePair_other)
qed

lemma escapeToken_no_slash: "CHR ''/'' \<notin> set (escapeToken s)"
  by (induction s) (simp_all add: escapeToken_Nil escapeToken_Cons escapeChar_def)

lemma split_no_sep: "c \<notin> set s \<Longrightarrow> split c s = [s]"
  by (induction s) auto

lemma paths_single_token:
  "paths (interpretPath (CHR ''/'' # escapeToken k)) = ['''', k]"
  by (simp add: interpretPath_def split_no_sep escapeToken_no_slash unescape_escape Let_def)
     (simp add: unescapeToken_def)

lemma paths_root: "paths (interpretPath '''') = ['''']"
  by (simp add: interpretPath_def unescapeToken_def)

text \<open>
  C10. Round trip of the token escape/unescape pair: for every string \<open>s\<close>,
  unescaping the escaped string gives \<open>s\<close> back.
\<close>

theorem C10_unescape_escape_roundtrip: "unescapeToken (escapeToken s) = s"
  by (rule unescape_escape)

subsection \<open>Pointer evaluation\<close>

lemmas evaluation_defs =
  evaluate_def interpretPath_def unescapeToken_def evaluateStep_def arrayOf_def cellAt_def
  isObject_def isArray_def isIndex_def isDigit_def parseInt_def digitValue_def
  hasOwn_def getProp_def members_def Let_def

lemma exampleHeap_eq:
  "exampleHeap = [CArr [VNum (Fin 3), VNum (Fin 4)],
                  CObj [(''c'', VNum (Fin 2)), (''d'', VRef 0)],
                  CObj [(''a'', VNum (Fin 1)), (''b'', VRef 1)]]"
  by (simp add: exampleHeap_def exampleDocument_def)

lemma exampleRef_eq: "exampleRef = VRef 2"
  by (simp add: exampleRef_def exampleDocument_def)

lemma initialHeap_eq:
  "initialHeap = [CArr [VNum (Fin 3), VNum (Fin 4)],
                  CObj [(''c'', VNum (Fin 2)), (''d'', VRef 0)],
                  CArr [VNum (Fin 5), VNum (Fin 6)],
                  CObj [(''a'', VNum (Fin 1)), (''b'', VRef 1), (''e'', VRef 2)]]"
  by (simp add: initialHeap_def initialObject_def)

lemma initialRef_eq: "initialRef = VRef 3"
  by (simp add: initialRef_def initialObject_def)

lemma initialObject_readback: "readback 3 initialHeap initialRef = Some initialObject"
  by (simp add: initialHeap_eq initialRef_eq initialObject_def cellAt_def eval_nat_numeral)

lemma reduce_append:
  "reduce f (xs @ ys) acc =
     (case reduce f xs acc of Inl e \<Rightarrow> Inl e | Inr acc' \<Rightarrow> reduce f ys acc')"
  by (induction xs arbitrary: acc) (simp_all split: sum.splits)

lemma evaluateStep_not_root_error: "evaluateStep h acc token \<noteq> Inl RootNotObject"
  by (simp add: evaluateStep_def Let_def split: option.splits)

lemma reduce_evaluateStep_not_root_error:
  "reduce (evaluateStep h) ts acc \<noteq> Inl RootNotObject"
proof (induction ts arbitrary: acc)
  case Nil
  show ?case by simp
next
  case (Cons t ts)
  show ?case
    using Cons evaluateStep_not_root_error [of h acc t]
    by (cases "evaluateStep h acc t") simp_all
qed

lemma isObject_iff: "isObject h D = (\<not> isPrimitive D \<and> \<not> isArray h D)"
  by (cases D) (simp_all add: isObject_def)

lemma evaluate_root_error_iff:
  "(evaluate h D (VStr P) = Inl RootNotObject) = (\<not> isObject h D)"
  by (simp add: evaluate_def Let_def reduce_evaluateStep_not_root_error)


lemma evaluateStep_array:
  "arrayOf h acc = Some xs \<Longrightarrow>
   evaluateStep h acc token =
     (if token = ''-'' then Inl InvalidArrayReference
      else if \<not> isIndex token then Inl InvalidArrayIndex
      else if parseInt token \<ge> length xs then Inl ArrayIndexOutOfBounds
      else Inr (xs ! parseInt token))"
  by (cases acc) (simp_all add: evaluateStep_def arrayOf_def Let_def)

lemma evaluate_member:
  assumes "isObject h D" and "map_of (members h D) k = Some v"
  shows "evaluate h D (VStr (CHR ''/'' # escapeToken k)) = Inr v"
proof -
  have t: "truthy D" and na: "arrayOf h D = None"
    using assms(1) by (cases D; simp add: isObject_def isArray_def)+
  show ?thesis
    using assms t na
    by (simp add: evaluate_def paths_single_token evaluateStep_def hasOwn_def getProp_def)
qed

text \<open>
  C1, as the code has it. For every document \<open>D\<close> and every pointer \<open>P\<close>,
  \<open>evaluate(D, P)\<close> fails with RootNotObject exactly when \<open>D\<close> is a primitive (a number,
  string or boolean, null, undefined) or an Array: the root test is \<open>isObject\<close>, which
  rejects arrays, so an Array-rooted document is refused like a primitive.
\<close>

theorem C1_root_error_iff_primitive_or_array:
  "(evaluate h D (VStr P) = Inl RootNotObject) = (isPrimitive D \<or> isArray h D)"
  by (auto simp: evaluate_root_error_iff isObject_iff)

text \<open>C1 at the primitive root \<open>42\<close> and at the object root of the example document.\<close>

theorem C1_root_error_witness:
  "isPrimitive (VNum (Fin 42))
   \<and> evaluate exampleHeap (VNum (Fin 42)) (VStr ''/a'') = Inl RootNotObject
   \<and> \<not> isPrimitive exampleRef \<and> \<not> isArray exampleHeap exampleRef
   \<and> evaluate exampleHeap exampleRef (VStr ''/a'') \<noteq> Inl RootNotObject"
  using C1_root_error_iff_primitive_or_array [of exampleHeap "VNum (Fin 42)" "''/a''"]
    C1_root_error_iff_primitive_or_array [of exampleHeap exampleRef "''/a''"]
  by (simp add: exampleHeap_eq exampleRef_eq isArray_def arrayOf_def cellAt_def)

text \<open>
  C1 as stated fails: the array \<open>[1]\<close> is Array-shaped, and evaluating \<open>/0\<close> on it
  raises RootNotObject.
\<close>

theorem C1_array_root_counterexample:
  "isArray [CArr [VNum (Fin 1)]] (VRef 0)
   \<and> evaluate [CArr [VNum (Fin 1)]] (VRef 0) (VStr ''/0'') = Inl RootNotObject"
  by (simp add: evaluate_def isObject_def isArray_def arrayOf_def cellAt_def Let_def)




text \<open>
  C6. Whenever the walk of \<open>evaluate\<close> over the tokens of a pointer has reached an Array
  value \<open>acc\<close> with elements \<open>xs\<close> and the next token is \<open>token\<close>: the token \<open>-\<close>
  fails with InvalidArrayReference; a token that does not match the unsigned-integer
  pattern fails with InvalidArrayIndex; a parsed index that is not below the length of the
  array fails with ArrayIndexOutOfBounds; otherwise the walk goes on over the remaining
  tokens from the element at that index. In particular
  \<open>evaluate({a:1,b:{c:2,d:[3,4]}}, "/b/d/1")\<close> returns 4.
\<close>

theorem C6_array_step:
  "(isObject h D \<longrightarrow> paths (interpretPath P) = '''' # pre @ token # rest \<longrightarrow>
    reduce (evaluateStep h) pre D = Inr acc \<longrightarrow> arrayOf h acc = Some xs \<longrightarrow>
    evaluate h D (VStr P) =
      (if token = ''-'' then Inl InvalidArrayReference
       else if \<not> isIndex token then Inl InvalidArrayIndex
       else if parseInt token \<ge> length xs then Inl ArrayIndexOutOfBounds
       else reduce (evaluateStep h) rest (xs ! parseInt token)))
   \<and> evaluate exampleHeap exampleRef (VStr ''/b/d/1'') = Inr (VNum (Fin 4))"
proof (intro conjI impI)
  assume a: "isObject h D" "paths (interpretPath P) = '''' # pre @ token # rest"
    "reduce (evaluateStep h) pre D = Inr acc" "arrayOf h acc = Some xs"
  have "evaluate h D (VStr P) = reduce (evaluateStep h) (pre @ token # rest) D"
    using a(1,2) by (cases pre) (simp_all add: evaluate_def Let_def)
  also have "\<dots> = (case evaluateStep h acc token of Inl e \<Rightarrow> Inl e
                    | Inr acc' \<Rightarrow> reduce (evaluateStep h) rest acc')"
    using a(3) by (simp add: reduce_append)
  finally show "evaluate h D (VStr P) =
      (if token = ''-'' then Inl InvalidArrayReference
       else if \<not> isIndex token then Inl InvalidArrayIndex
       else if parseInt token \<ge> length xs then Inl ArrayIndexOutOfBounds
       else reduce (evaluateStep h) rest (xs ! parseInt token))"
    by (simp add: evaluateStep_array [OF a(4)])
next
  show "evaluate exampleHeap exampleRef (VStr ''/b/d/1'') = Inr (VNum (Fin 4))"
    by (simp add: exampleHeap_eq exampleRef_eq evaluation_defs)
qed

text \<open>
  C6 on the example document at the pointers \<open>/b/d/-\<close>, \<open>/b/d/x\<close>, \<open>/b/d/2\<close> and
  \<open>/b/d/01\<close>: the walk over \<open>b\<close> and \<open>d\<close> reaches the array \<open>[3,4]\<close>.
\<close>

theorem C6_array_step_witness:
  "isObject exampleHeap exampleRef
   \<and> reduce (evaluateStep exampleHeap) [''b'', ''d''] exampleRef = Inr (VRef 0)
   \<and> arrayOf exampleHeap (VRef 0) = Some [VNum (Fin 3), VNum (Fin 4)]
   \<and> evaluate exampleHeap exampleRef (VStr ''/b/d/-'') = Inl InvalidArrayReference
   \<and> evaluate exampleHeap exampleRef (VStr ''/b/d/x'') = Inl InvalidArrayIndex
   \<and> evaluate exampleHeap exampleRef (VStr ''/b/d/2'') = Inl ArrayIndexOutOfBounds
   \<and> evaluate exampleHeap exampleRef (VStr ''/b/d/01'') = Inr (VNum (Fin 4))"
proof -
  have o: "isObject exampleHeap exampleRef"
    by (simp add: exampleHeap_eq exampleRef_eq isObject_def isArray_def arrayOf_def cellAt_def)
  have w: "reduce (evaluateStep exampleHeap) [''b'', ''d''] exampleRef = Inr (VRef 0)"
    by (simp add: exampleHeap_eq exampleRef_eq evaluation_defs)
  have x: "arrayOf exampleHeap (VRef 0) = Some [VNum (Fin 3), VNum (Fin 4)]"
    by (simp add: exampleHeap_eq arrayOf_def cellAt_def)
  have p: "paths (interpretPath (''/b/d/'' @ t)) = '''' # [''b'', ''d''] @ t # []"
    if "CHR ''/'' \<notin> set t" "unescapeToken t = t" for t
    using that by (simp add: interpretPath_def split_no_sep) (simp add: unescapeToken_def)
  have s: "evaluate exampleHeap exampleRef (VStr (''/b/d/'' @ t)) =
      (if t = ''-'' then Inl InvalidArrayReference
       else if \<not> isIndex t then Inl InvalidArrayIndex
       else if parseInt t \<ge> length [VNum (Fin 3), VNum (Fin 4)] then Inl ArrayIndexOutOfBounds
       else reduce (evaluateStep exampleHeap) [] ([VNum (Fin 3), VNum (Fin 4)] ! parseInt t))"
    if "CHR ''/'' \<notin> set t" "unescapeToken t = t" for t
    using C6_array_step [of exampleHeap exampleRef "''/b/d/'' @ t" "[''b'', ''d'']" t "[]"
        "VRef 0" "[VNum (Fin 3), VNum (Fin 4)]"] o w x p [OF that]
    by blast
  have "evaluate exampleHeap exampleRef (VStr ''/b/d/-'') = Inl InvalidArrayReference"
    using s [of "''-''"] by (simp add: unescapeToken_def)
  moreover have "evaluate exampleHeap exampleRef (VStr ''/b/d/x'') = Inl InvalidArrayIndex"
    using s [of "''x''"] by (simp add: unescapeToken_def isIndex_def isDigit_def)
  moreover have "evaluate exampleHeap exampleRef (VStr ''/b/d/2'') = Inl ArrayIndexOutOfBounds"
    using s [of "''2''"]
    by (simp add: unescapeToken_def isIndex_def isDigit_def parseInt_def digitValue_def)
  moreover have "evaluate exampleHeap exampleRef (VStr ''/b/d/01'') = Inr (VNum (Fin 4))"
    using s [of "''01''"]
    by (simp add: unescapeToken_def isIndex_def isDigit_def parseInt_def digitValue_def)
  ultimately show ?thesis using o w x by simp
qed

text \<open>
  C7. Unescaping is the \<open>~1\<close> pass followed by the \<open>~0\<close> pass, so \<open>~01\<close> decodes to
  \<open>~1\<close> (not \<open>/\<close>), alone and inside any token. Consequently the pointer made of
  \<open>/\<close> and the escaped form of a key \<open>k\<close> addresses the member named \<open>k\<close> of an
  object, whatever \<open>/\<close> and \<open>~\<close> the key contains; the key \<open>slash/key\<close> is reached
  by \<open>/slash~1key\<close> and the key \<open>tilde~key\<close> by \<open>/tilde~0key\<close>.
\<close>

theorem C7_unescape_order:
  "unescapeToken str
     = replacePair CHR ''~'' CHR ''0'' ''~'' (replacePair CHR ''~'' CHR ''1'' ''/'' str)
   \<and> unescapeToken ''~01'' = ''~1''
   \<and> unescapeToken (u @ ''~01'' @ w) = unescapeToken u @ ''~1'' @ unescapeToken w
   \<and> (isObject h D \<longrightarrow> map_of (members h D) k = Some v \<longrightarrow>
        evaluate h D (VStr (CHR ''/'' # escapeToken k)) = Inr v)
   \<and> evaluate [CObj [(''slash/key'', VStr ''secret'')]] (VRef 0) (VStr ''/slash~1key'')
        = Inr (VStr ''secret'')
   \<and> evaluate [CObj [(''tilde~key'', VNum (Fin 123))]] (VRef 0) (VStr ''/tilde~0key'')
        = Inr (VNum (Fin 123))"
proof (intro conjI impI)
  show "unescapeToken str
     = replacePair CHR ''~'' CHR ''0'' ''~'' (replacePair CHR ''~'' CHR ''1'' ''/'' str)"
    by (simp add: unescapeToken_def)
  show "unescapeToken ''~01'' = ''~1''"
    by (simp add: unescapeToken_def)
  show "unescapeToken (u @ ''~01'' @ w) = unescapeToken u @ ''~1'' @ unescapeToken w"
    by (rule unescapeToken_tilde01)
  show "evaluate h D (VStr (CHR ''/'' # escapeToken k)) = Inr v"
    if "isObject h D" "map_of (members h D) k = Some v"
    using that by (rule evaluate_member)
  show "evaluate [CObj [(''slash/key'', VStr ''secret'')]] (VRef 0) (VStr ''/slash~1key'')
        = Inr (VStr ''secret'')"
    by (simp add: evaluation_defs)
  show "evaluate [CObj [(''tilde~key'', VNum (Fin 123))]] (VRef 0) (VStr ''/tilde~0key'')
        = Inr (VNum (Fin 123))"
    by (simp add: evaluation_defs)
qed

text \<open>C7 at the key \<open>a/b~c\<close>, whose escaped form is \<open>a~1b~0c\<close>.\<close>

theorem C7_unescape_order_witness:
  "isObject [CObj [(''a/b~c'', VNull)]] (VRef 0)
   \<and> map_of (members [CObj [(''a/b~c'', VNull)]] (VRef 0)) ''a/b~c'' = Some VNull
   \<and> escapeToken ''a/b~c'' = ''a~1b~0c''
   \<and> evaluate [CObj [(''a/b~c'', VNull)]] (VRef 0) (VStr ''/a~1b~0c'') = Inr VNull"
proof -
  have o: "isObject [CObj [(''a/b~c'', VNull)]] (VRef 0)"
    by (simp add: isObject_def isArray_def arrayOf_def cellAt_def)
  have m: "map_of (members [CObj [(''a/b~c'', VNull)]] (VRef 0)) ''a/b~c'' = Some VNull"
    by (simp add: members_def cellAt_def)
  have e: "escapeToken ''a/b~c'' = ''a~1b~0c''"
    by (simp add: escapeToken_def)
  show ?thesis
    using C7_unescape_order [of "[]" "[]" "[]" "[CObj [(''a/b~c'', VNull)]]" "VRef 0"
        "''a/b~c''" VNull] o m e
    by simp
qed

subsection \<open>The calls of evaluate in patch.ts\<close>

text \<open>
  patch.ts calls \<open>evaluate(pointer, document)\<close>: the pointer string where \<open>evaluate\<close>
  expects the document and the document where it expects the pointer. A document that is
  not a string has no \<open>split\<close>, so \<open>interpretPath\<close> throws a TypeError; a document that
  is a string splits, and then the root (the pointer string) is not an object. Either way
  the call throws.
\<close>

lemma evaluate_swapped:
  "evaluate h (VStr s) D = Inl (case D of VStr p \<Rightarrow> RootNotObject | _ \<Rightarrow> TypeError)"
  by (cases D) (simp_all add: evaluate_def isObject_def Let_def)

lemma add_cases:
  "add h D p v =
     (case structuredClone h D of
        Inl e \<Rightarrow> (h, Inl e)
      | Inr (h1, c) \<Rightarrow>
          if paths (interpretPath p) ! 0 \<noteq> '''' then (h1, Inl InvalidPointer)
          else if length (paths (interpretPath p)) = 1
            then (h1 @ [CObj [(''value'', v)]], Inr (VRef (length h1)))
          else if last (paths (interpretPath p)) = '''' then (h1, Inl InvalidPointer)
          else (h1, Inl (case c of VStr s \<Rightarrow> RootNotObject | _ \<Rightarrow> TypeError)))"
  by (simp add: add_def Let_def evaluate_swapped newCell_def split: sum.splits prod.splits)





text \<open>
  C4 on the code. In \<open>initialObject\<close> the path \<open>/a\<close> resolves to 1. With the expected
  value 1, which \<open>isEqual\<close> accepts, \<open>test\<close> does not return the document: it throws a
  TypeError. With the expected value 999, which \<open>isEqual\<close> rejects, it throws the same
  TypeError and not TestMismatch. The heap is the same after both calls.
\<close>

theorem C4_test_throws_type_error:
  "evaluate initialHeap initialRef (VStr ''/a'') = Inr (VNum (Fin 1))
   \<and> isEqual initialHeap (VNum (Fin 1)) (VNum (Fin 1)) = Some True
   \<and> test initialHeap initialRef ''/a'' (VNum (Fin 1)) = (initialHeap, Inl TypeError)
   \<and> isEqual initialHeap (VNum (Fin 1)) (VNum (Fin 999)) = Some False
   \<and> test initialHeap initialRef ''/a'' (VNum (Fin 999)) = (initialHeap, Inl TypeError)"
  by (simp add: initialHeap_eq initialRef_eq evaluation_defs isEqual_def strictEq_def isNaN_def
        test_def)

text \<open>
  C5 on the code. In \<open>initialObject\<close> the parent path \<open>/e\<close> resolves to the array
  \<open>[5,6]\<close>, whose element 0 is truthy; \<open>remove\<close> at \<open>/e/0\<close> does not splice it out: it
  throws a TypeError. In \<open>{e:[0,6]}\<close> element 0 is falsy; \<open>remove\<close> at \<open>/e/0\<close> throws
  the same TypeError and not InvalidRemoveTarget.
\<close>

theorem C5_remove_throws_type_error:
  "evaluate initialHeap initialRef (VStr ''/e'') = Inr (VRef 2)
   \<and> arrayOf initialHeap (VRef 2) = Some [VNum (Fin 5), VNum (Fin 6)]
   \<and> truthy (VNum (Fin 5))
   \<and> snd (remove initialHeap initialRef ''/e/0'') = Inl TypeError
   \<and> evaluate falsyHeap (VRef 1) (VStr ''/e'') = Inr (VRef 0)
   \<and> arrayOf falsyHeap (VRef 0) = Some [VNum (Fin 0), VNum (Fin 6)]
   \<and> \<not> truthy (VNum (Fin 0))
   \<and> snd (remove falsyHeap (VRef 1) ''/e/0'') = Inl TypeError"
  by (simp add: initialHeap_eq initialRef_eq falsyHeap_def evaluation_defs remove_def
        structuredClone_def eval_nat_numeral)

subsection \<open>Allocation only extends the heap\<close>

lemma extends_refl: "extends h h"
  by (simp add: extends_def)

lemma extends_append: "extends h (h @ cs)"
  by (simp add: extends_def)

lemma extends_iff: "extends h h' = (\<exists>cs. h' = h @ cs)"
  unfolding extends_def
  by (metis append_eq_conv_conj append_take_drop_id)

lemma extends_trans: "extends h h1 \<Longrightarrow> extends h1 h2 \<Longrightarrow> extends h h2"
  by (auto simp: extends_iff)

lemma extends_length: "extends h h' \<Longrightarrow> length h \<le> length h'"
  by (auto simp: extends_iff)

lemma extends_cellAt: "extends h h' \<Longrightarrow> cellAt h a = Some c \<Longrightarrow> cellAt h' a = Some c"
  by (auto simp: extends_iff cellAt_def nth_append split: if_splits)


lemma alloc_extends:
  "extends h (fst (alloc t h))"
  "extends h (fst (allocList ts h))"
  "extends h (fst (allocMembers kts h))"
proof (induction t h and ts h and kts h rule: alloc_allocList_allocMembers.induct)
  case (6 ts h)
  then show ?case
    by (auto simp: extends_iff split: prod.splits)
next
  case (7 kts h)
  then show ?case
    by (auto simp: extends_iff split: prod.splits)
next
  case (9 t ts h)
  then show ?case
    by (auto split: prod.splits intro: extends_trans)
next
  case (11 k t kts h)
  then show ?case
    by (auto split: prod.splits intro: extends_trans)
qed (simp_all add: extends_refl)

lemma structuredClone_extends:
  "structuredClone h v = Inr (h1, c) \<Longrightarrow> extends h h1"
proof -
  assume a: "structuredClone h v = Inr (h1, c)"
  then obtain t where "alloc t h = (h1, c)"
    by (auto simp: structuredClone_def split: option.splits)
  then show ?thesis
    using alloc_extends(1) [of h t] by simp
qed






subsection \<open>Reading a tree back\<close>

lemma sequence_Some_eq: "(sequence xs = Some ys) = (xs = map Some ys)"
proof (induction xs arbitrary: ys)
  case Nil
  show ?case by auto
next
  case (Cons x xs)
  show ?case
  proof (cases x)
    case None
    then show ?thesis by (cases ys) auto
  next
    case (Some y)
    show ?thesis
    proof (cases "sequence xs")
      case None
      then have "\<And>zs. xs \<noteq> map Some zs" using Cons [symmetric] by simp
      then show ?thesis using Some None by (cases ys) auto
    next
      case (Some zs)
      then have "xs = map Some zs" using Cons by simp
      then show ?thesis using \<open>x = Some y\<close> Some by (cases ys) auto
    qed
  qed
qed

lemma sequence_Some_iff:
  "(sequence xs = Some ys) = list_all2 (\<lambda>x y. x = Some y) xs ys"
  unfolding sequence_Some_eq
  by (induction xs arbitrary: ys) (auto simp: list_all2_Cons1)

lemma sequence_map_Some_iff:
  "(sequence (map f xs) = Some ys) = list_all2 (\<lambda>x y. f x = Some y) xs ys"
  by (simp add: sequence_Some_iff list_all2_map1)

lemma readback_ref_array:
  "cellAt h a = Some (CArr vs) \<Longrightarrow>
   (readback (Suc n) h (VRef a) = Some t) =
     (\<exists>ts. t = JArr ts \<and> list_all2 (\<lambda>v t. readback n h v = Some t) vs ts)"
  by (auto simp: sequence_map_Some_iff)

lemma readback_ref_object:
  "cellAt h a = Some (CObj kvs) \<Longrightarrow>
   (readback (Suc n) h (VRef a) = Some t) =
     (\<exists>kts. t = JObj kts \<and>
        list_all2 (\<lambda>kv kt. fst kv = fst kt \<and> readback n h (snd kv) = Some (snd kt)) kvs kts)"
proof -
  have eq: "\<And>kts. list_all2 (\<lambda>x y. (case x of (k, v) \<Rightarrow> map_option (Pair k) (readback n h v)) = Some y) kvs kts
       = list_all2 (\<lambda>kv kt. fst kv = fst kt \<and> readback n h (snd kv) = Some (snd kt)) kvs kts"
    by (rule arg_cong [where f = "\<lambda>P. list_all2 P kvs _"]) (auto simp: fun_eq_iff)
  assume "cellAt h a = Some (CObj kvs)"
  then show ?thesis
    by (auto simp: sequence_map_Some_iff eq)
qed

lemma readback_ref_cases:
  assumes "readback (Suc n) h (VRef a) = Some t"
  shows "(\<exists>vs ts. cellAt h a = Some (CArr vs) \<and> t = JArr ts
            \<and> list_all2 (\<lambda>v t. readback n h v = Some t) vs ts)
       \<or> (\<exists>kvs kts. cellAt h a = Some (CObj kvs) \<and> t = JObj kts
            \<and> list_all2 (\<lambda>kv kt. fst kv = fst kt \<and> readback n h (snd kv) = Some (snd kt)) kvs kts)"
proof (cases "cellAt h a")
  case None
  then show ?thesis using assms by simp
next
  case (Some c)
  show ?thesis
  proof (cases c)
    case (CArr vs)
    then show ?thesis using assms Some readback_ref_array [of h a vs n t] by auto
  next
    case (CObj kvs)
    then show ?thesis using assms Some readback_ref_object [of h a kvs n t] by auto
  qed
qed

lemma readback_zero: "readback 0 h v = Some t \<Longrightarrow> isPrimitive v"
  by (cases v) simp_all

lemma readback_mono:
  "readback n h v = Some t \<Longrightarrow> n \<le> m \<Longrightarrow> extends h h' \<Longrightarrow> readback m h' v = Some t"
proof (induction n arbitrary: m v t)
  case 0
  then have "isPrimitive v" by (rule_tac readback_zero)
  then show ?case using 0 by (cases v) simp_all
next
  case (Suc n)
  show ?case
  proof (cases v)
    case (VRef a)
    obtain m' where m: "m = Suc m'" and le: "n \<le> m'"
      using Suc.prems(2) by (cases m) auto
    from Suc.prems(1) VRef have rb: "readback (Suc n) h (VRef a) = Some t" by simp
    from readback_ref_cases [OF rb] show ?thesis
    proof (elim disjE exE conjE)
      fix vs ts
      assume c: "cellAt h a = Some (CArr vs)" and t: "t = JArr ts"
        and all: "list_all2 (\<lambda>v t. readback n h v = Some t) vs ts"
      have "list_all2 (\<lambda>v t. readback m' h' v = Some t) vs ts"
        using all Suc.IH le Suc.prems(3) by (auto elim!: list_all2_mono)
      then show ?thesis
        using readback_ref_array [OF extends_cellAt [OF Suc.prems(3) c], of m' t] t m VRef
        by simp
    next
      fix kvs kts
      assume c: "cellAt h a = Some (CObj kvs)" and t: "t = JObj kts"
        and all: "list_all2 (\<lambda>kv kt. fst kv = fst kt \<and> readback n h (snd kv) = Some (snd kt)) kvs kts"
      have "list_all2 (\<lambda>kv kt. fst kv = fst kt \<and> readback m' h' (snd kv) = Some (snd kt)) kvs kts"
        using all Suc.IH le Suc.prems(3) by (auto elim!: list_all2_mono)
      then show ?thesis
        using readback_ref_object [OF extends_cellAt [OF Suc.prems(3) c], of m' t] t m VRef
        by simp
    qed
  qed (use Suc.prems in simp_all)
qed

lemma readback_deterministic:
  assumes "readback n h v = Some t" and "readback m h v = Some t'"
  shows "t = t'"
proof -
  have "readback (max n m) h v = Some t"
    using readback_mono [OF assms(1) _ extends_refl] by simp
  moreover have "readback (max n m) h v = Some t'"
    using readback_mono [OF assms(2) _ extends_refl] by simp
  ultimately show ?thesis by simp
qed

lemma size_JArr_element: "t \<in> set ts \<Longrightarrow> size t < size (JArr ts)"
  by (simp add: less_Suc_eq_le size_list_estimation')

lemma size_JObj_member: "kt \<in> set kts \<Longrightarrow> size (snd kt) < size (JObj kts)"
proof -
  assume "kt \<in> set kts"
  moreover have "size (snd kt) \<le> size_prod (\<lambda>_. 0) size kt" by (cases kt) simp
  ultimately have "size (snd kt) \<le> size_list (size_prod (\<lambda>_. 0) size) kts"
    by (rule size_list_estimation')
  then show ?thesis by simp
qed

lemma readback_bound_aux:
  "readback n h v = Some t \<Longrightarrow> S \<subseteq> {..<length h} \<Longrightarrow>
   (\<forall>a\<in>S. \<forall>m t'. readback m h (VRef a) = Some t' \<longrightarrow> size t < size t') \<Longrightarrow>
   readback (length h - card S) h v = Some t"
proof (induction n arbitrary: v t S)
  case 0
  then have "isPrimitive v" by (rule_tac readback_zero)
  then show ?case using 0 by (cases v) simp_all
next
  case (Suc n)
  show ?case
  proof (cases v)
    case (VRef a)
    from Suc.prems(1) VRef have rb: "readback (Suc n) h (VRef a) = Some t" by simp
    have notin: "a \<notin> S"
    proof
      assume "a \<in> S"
      then have "size t < size t" using Suc.prems(3) rb by blast
      then show False by simp
    qed
    have fin: "finite S" using Suc.prems(2) finite_subset by blast
    have lt: "a < length h" using readback_ref_cases [OF rb] by (auto simp: cellAt_def split: if_splits)
    let ?S = "insert a S"
    have sub: "?S \<subseteq> {..<length h}" using Suc.prems(2) lt by simp
    have "card ?S \<le> card {..<length h}" using sub by (intro card_mono) simp_all
    then have card: "Suc (card S) \<le> length h" using notin fin by simp
    then have fuel: "length h - card S = Suc (length h - card ?S)"
      using notin fin by simp
    have child: "readback (length h - card ?S) h w = Some u"
      if w: "readback n h w = Some u" and small: "size u < size t" for w u
    proof (rule Suc.IH [OF w sub], intro ballI allI impI)
      fix a' m t'
      assume a': "a' \<in> ?S" and r': "readback m h (VRef a') = Some t'"
      show "size u < size t'"
      proof (cases "a' = a")
        case True
        then have "t' = t" using readback_deterministic [OF r' [unfolded True] rb] by simp
        then show ?thesis using small by simp
      next
        case False
        then have "a' \<in> S" using a' by simp
        then have "size t < size t'" using Suc.prems(3) r' by blast
        then show ?thesis using small by simp
      qed
    qed
    from readback_ref_cases [OF rb] show ?thesis
    proof (elim disjE exE conjE)
      fix vs ts
      assume c: "cellAt h a = Some (CArr vs)" and t: "t = JArr ts"
        and all: "list_all2 (\<lambda>v t. readback n h v = Some t) vs ts"
      have "list_all2 (\<lambda>v t. readback (length h - card ?S) h v = Some t) vs ts"
        using all
      proof (rule list.rel_mono_strong)
        fix w u assume "u \<in> set ts" "readback n h w = Some u"
        then show "readback (length h - card ?S) h w = Some u"
          using child size_JArr_element t by blast
      qed
      then show ?thesis
        using readback_ref_array [OF c, of "length h - card ?S" t] t VRef fuel by simp
    next
      fix kvs kts
      assume c: "cellAt h a = Some (CObj kvs)" and t: "t = JObj kts"
        and all: "list_all2 (\<lambda>kv kt. fst kv = fst kt \<and> readback n h (snd kv) = Some (snd kt)) kvs kts"
      have "list_all2 (\<lambda>kv kt. fst kv = fst kt \<and> readback (length h - card ?S) h (snd kv) = Some (snd kt)) kvs kts"
        using all
      proof (rule list.rel_mono_strong)
        fix kv kt assume "kt \<in> set kts" "fst kv = fst kt \<and> readback n h (snd kv) = Some (snd kt)"
        then show "fst kv = fst kt \<and> readback (length h - card ?S) h (snd kv) = Some (snd kt)"
          using child size_JObj_member t by blast
      qed
      then show ?thesis
        using readback_ref_object [OF c, of "length h - card ?S" t] t VRef fuel by simp
    qed
  qed (use Suc.prems in simp_all)
qed

lemma readback_bound: "readback n h v = Some t \<Longrightarrow> readback (length h) h v = Some t"
  using readback_bound_aux [of n h v t "{}"] by simp

lemma structuredClone_document:
  "readback n h D = Some d \<Longrightarrow> structuredClone h D = Inr (alloc d h)"
  by (simp add: structuredClone_def readback_bound)

subsection \<open>structuredClone and isEqual on documents\<close>

text \<open>
  The bounds in \<open>structuredClone\<close> and \<open>isEqual\<close> are never reached on a document:
  a tree that was allocated reads back; the clone of a value that reads back as a tree is
  a value in new cells that reads back as the same tree, and the original still does; and
  \<open>isEqual\<close> returns whenever its first argument reads back as a tree.
\<close>

lemma alloc_readback:
  "alloc t h = (h', v) \<Longrightarrow> \<exists>n. readback n h' v = Some t"
  "allocList ts h = (h', vs) \<Longrightarrow> \<exists>n. list_all2 (\<lambda>v t. readback n h' v = Some t) vs ts"
  "allocMembers kts h = (h', kvs) \<Longrightarrow>
     \<exists>n. list_all2 (\<lambda>kv kt. fst kv = fst kt \<and> readback n h' (snd kv) = Some (snd kt)) kvs kts"
proof (induction t h and ts h and kts h arbitrary: h' v and h' vs and h' kvs
       rule: alloc_allocList_allocMembers.induct)
  case (6 ts h)
  obtain h1 ws where al: "allocList ts h = (h1, ws)" by (cases "allocList ts h")
  with 6 obtain n where all: "list_all2 (\<lambda>v t. readback n h1 v = Some t) ws ts" by blast
  have res: "h' = h1 @ [CArr ws]" "v = VRef (length h1)" using 6(2) al by simp_all
  have "list_all2 (\<lambda>v t. readback n h' v = Some t) ws ts"
    using all readback_mono [OF _ le_refl extends_append] res(1)
    by (auto elim!: list_all2_mono)
  moreover have "cellAt h' (length h1) = Some (CArr ws)" using res(1) by (simp add: cellAt_def)
  ultimately have "readback (Suc n) h' v = Some (JArr ts)"
    using readback_ref_array res(2) by blast
  then show ?case by blast
next
  case (7 kts h)
  obtain h1 ws where al: "allocMembers kts h = (h1, ws)" by (cases "allocMembers kts h")
  with 7 obtain n where
    all: "list_all2 (\<lambda>kv kt. fst kv = fst kt \<and> readback n h1 (snd kv) = Some (snd kt)) ws kts"
    by blast
  have res: "h' = h1 @ [CObj ws]" "v = VRef (length h1)" using 7(2) al by simp_all
  have "list_all2 (\<lambda>kv kt. fst kv = fst kt \<and> readback n h' (snd kv) = Some (snd kt)) ws kts"
    using all readback_mono [OF _ le_refl extends_append] res(1)
    by (auto elim!: list_all2_mono)
  moreover have "cellAt h' (length h1) = Some (CObj ws)" using res(1) by (simp add: cellAt_def)
  ultimately have "readback (Suc n) h' v = Some (JObj kts)"
    using readback_ref_object res(2) by blast
  then show ?case by blast
next
  case (8 h)
  then show ?case by simp
next
  case (9 t ts h)
  obtain h1 w where a1: "alloc t h = (h1, w)" by (cases "alloc t h")
  obtain h2 ws where a2: "allocList ts h1 = (h2, ws)" by (cases "allocList ts h1")
  have res: "h' = h2" "vs = w # ws" using 9(3) a1 a2 by simp_all
  from 9(1) [OF a1] obtain n1 where r1: "readback n1 h1 w = Some t" by blast
  from 9(2) [OF a1 [symmetric] a2] obtain n2 where
    r2: "list_all2 (\<lambda>v t. readback n2 h2 v = Some t) ws ts" by blast
  have e: "extends h1 h2" using alloc_extends(2) [of h1 ts] a2 by simp
  have "readback (max n1 n2) h2 w = Some t"
    using readback_mono [OF r1 _ e] by simp
  moreover have "list_all2 (\<lambda>v t. readback (max n1 n2) h2 v = Some t) ws ts"
    using r2 readback_mono [OF _ _ extends_refl, of n2 h2 _ _ "max n1 n2"]
    by (auto elim!: list_all2_mono)
  ultimately show ?case using res by auto
next
  case (10 h)
  then show ?case by simp
next
  case (11 k t kts h)
  obtain h1 w where a1: "alloc t h = (h1, w)" by (cases "alloc t h")
  obtain h2 ws where a2: "allocMembers kts h1 = (h2, ws)" by (cases "allocMembers kts h1")
  have res: "h' = h2" "kvs = (k, w) # ws" using 11(3) a1 a2 by simp_all
  from 11(1) [OF a1] obtain n1 where r1: "readback n1 h1 w = Some t" by blast
  from 11(2) [OF a1 [symmetric] a2] obtain n2 where
    r2: "list_all2 (\<lambda>kv kt. fst kv = fst kt \<and> readback n2 h2 (snd kv) = Some (snd kt)) ws kts"
    by blast
  have e: "extends h1 h2" using alloc_extends(3) [of h1 kts] a2 by simp
  have "readback (max n1 n2) h2 w = Some t"
    using readback_mono [OF r1 _ e] by simp
  moreover have "list_all2 (\<lambda>kv kt. fst kv = fst kt \<and> readback (max n1 n2) h2 (snd kv) = Some (snd kt)) ws kts"
    using r2 readback_mono [OF _ _ extends_refl, of n2 h2 _ _ "max n1 n2"]
    by (auto elim!: list_all2_mono)
  ultimately show ?case using res by auto
qed auto

lemma alloc_result:
  "alloc t h = (h', v) \<Longrightarrow> isPrimitive v \<or> fresh h v"
proof (cases t)
  case (JArr ts)
  assume a: "alloc t h = (h', v)"
  obtain h1 ws where al: "allocList ts h = (h1, ws)" by (cases "allocList ts h")
  have "length h \<le> length h1" using alloc_extends(2) [of h ts] al extends_length by fastforce
  then show ?thesis using a JArr al by auto
next
  case (JObj kts)
  assume a: "alloc t h = (h', v)"
  obtain h1 ws where al: "allocMembers kts h = (h1, ws)" by (cases "allocMembers kts h")
  have "length h \<le> length h1" using alloc_extends(3) [of h kts] al extends_length by fastforce
  then show ?thesis using a JObj al by auto
qed auto

lemma structuredClone_copy:
  assumes "readback n h D = Some d"
  shows "\<exists>h1 c m. structuredClone h D = Inr (h1, c) \<and> extends h h1
           \<and> readback m h1 c = Some d \<and> readback m h1 D = Some d
           \<and> (isPrimitive c \<or> fresh h c)"
proof -
  obtain h1 c where al: "alloc d h = (h1, c)" by (cases "alloc d h")
  have sc: "structuredClone h D = Inr (h1, c)"
    using structuredClone_document [OF assms] al by simp
  have e: "extends h h1" using structuredClone_extends [OF sc] .
  from alloc_readback(1) [OF al] obtain k where k: "readback k h1 c = Some d" by blast
  have "readback (max k n) h1 c = Some d"
    using readback_mono [OF k _ extends_refl] by simp
  moreover have "readback (max k n) h1 D = Some d"
    using readback_mono [OF assms _ e] by simp
  ultimately show ?thesis using sc e alloc_result [OF al] by blast
qed

lemma every_returns: "(\<And>x. x \<in> set xs \<Longrightarrow> f x \<noteq> None) \<Longrightarrow> every f xs \<noteq> None"
proof (induction xs)
  case Nil
  show ?case by simp
next
  case (Cons x xs)
  then have "f x \<noteq> None" and "every f xs \<noteq> None" by simp_all
  then show ?case by (auto split: option.splits bool.splits)
qed

lemma getProp_member: "k \<in> set (map fst kvs) \<Longrightarrow> (k, getProp kvs k) \<in> set kvs"
proof -
  assume "k \<in> set (map fst kvs)"
  then obtain v where "map_of kvs k = Some v"
    by (metis map_of_eq_None_iff not_Some_eq set_map)
  then show ?thesis by (simp add: getProp_def map_of_SomeD)
qed

lemma isEqualDepth_primitive:
  assumes "isPrimitive a"
  shows "isEqualDepth (Suc n) h a b \<noteq> None"
proof -
  have "arrayOf h a = None" and "\<not> isObject h a"
    using assms by (cases a; simp add: arrayOf_def isObject_def)+
  then show ?thesis by auto
qed

lemma isEqualDepth_returns:
  "readback n h a = Some t \<Longrightarrow> isEqualDepth (Suc n) h a b \<noteq> None"
proof (induction n arbitrary: a b t)
  case 0
  then have "isPrimitive a" by (rule_tac readback_zero)
  then show ?case by (rule isEqualDepth_primitive)
next
  case (Suc n)
  show ?case
  proof (cases "isPrimitive a")
    case True
    then show ?thesis by (rule isEqualDepth_primitive)
  next
    case False
    then obtain r where VRef: "a = VRef r" by (cases a) simp_all
    from Suc.prems VRef have rb: "readback (Suc n) h (VRef r) = Some t" by simp
    from readback_ref_cases [OF rb] show ?thesis
    proof (elim disjE exE conjE)
      fix vs ts
      assume c: "cellAt h r = Some (CArr vs)"
        and all: "list_all2 (\<lambda>v t. readback n h v = Some t) vs ts"
      have xs: "arrayOf h a = Some vs" using c VRef by (simp add: arrayOf_def)
      have el: "isEqualDepth (Suc n) h (vs ! idx) y \<noteq> None" if "idx < length vs" for idx y
        using Suc.IH [of "vs ! idx" "ts ! idx" y] all that
        by (simp del: isEqualDepth.simps add: list_all2_conv_all_nth)
      have "every (\<lambda>idx. isEqualDepth (Suc n) h (vs ! idx) (getIndex ys idx)) [0 ..< length vs] \<noteq> None"
        for ys
        by (rule every_returns) (simp del: isEqualDepth.simps add: el)
      then show ?thesis
        using xs
        by (subst isEqualDepth.simps(2)) (auto simp del: isEqualDepth.simps split: option.splits)
    next
      fix kvs kts
      assume c: "cellAt h r = Some (CObj kvs)"
        and all: "list_all2 (\<lambda>kv kt. fst kv = fst kt \<and> readback n h (snd kv) = Some (snd kt)) kvs kts"
      have xs: "arrayOf h a = None" and ms: "members h a = kvs"
        using c VRef by (simp_all add: arrayOf_def members_def)
      have mem: "isEqualDepth (Suc n) h (snd kv) y \<noteq> None" if "kv \<in> set kvs" for kv y
      proof -
        from that obtain i where "i < length kvs" "kvs ! i = kv" by (auto simp: in_set_conv_nth)
        then have "readback n h (snd kv) = Some (snd (kts ! i))"
          using all by (auto simp: list_all2_conv_all_nth)
        then show ?thesis using Suc.IH by blast
      qed
      have "every (\<lambda>k. if \<not> hasOwn other k then Some False
                else isEqualDepth (Suc n) h (getProp kvs k) (getProp other k))
              (map fst kvs) \<noteq> None" for other
      proof (rule every_returns)
        fix k assume "k \<in> set (map fst kvs)"
        then have "(k, getProp kvs k) \<in> set kvs" by (rule getProp_member)
        then show "(if \<not> hasOwn other k then Some False
                else isEqualDepth (Suc n) h (getProp kvs k) (getProp other k)) \<noteq> None"
          using mem [of "(k, getProp kvs k)"] by (auto simp del: isEqualDepth.simps)
      qed
      then show ?thesis
        using xs ms
        by (subst isEqualDepth.simps(2)) (auto simp del: isEqualDepth.simps simp add: Let_def)
    qed
  qed
qed

lemma isEqual_returns: "readback n h a = Some t \<Longrightarrow> isEqual h a b \<noteq> None"
  unfolding isEqual_def
  using isEqualDepth_returns [OF readback_bound] by blast

subsection \<open>add at the root\<close>

lemma add_root:
  assumes "readback n h D = Some d"
  shows "\<exists>h1. add h D '''' value = (h1 @ [CObj [(''value'', value)]], Inr (VRef (length h1)))
             \<and> extends h h1"
proof -
  obtain h1 c where al: "alloc d h = (h1, c)" by (cases "alloc d h")
  have sc: "structuredClone h D = Inr (h1, c)"
    using structuredClone_document [OF assms] al by simp
  have "add h D '''' value = (h1 @ [CObj [(''value'', value)]], Inr (VRef (length h1)))"
    by (simp add: add_cases sc paths_root)
  moreover have "extends h h1" using structuredClone_extends [OF sc] .
  ultimately show ?thesis by blast
qed

text \<open>
  C3. For every document \<open>D\<close> (a value that reads back as a JSON tree \<open>d\<close>, at whatever
  depth \<open>n\<close>) and every value, \<open>add(D, {path: "", value})\<close> succeeds and returns a
  reference to a new object, allocated by the call, whose sole member binds the key
  \<open>value\<close> to the given value; nothing that existed before is written. When the value
  reads back as the tree \<open>t\<close>, the result reads back as \<open>{value: t}\<close>: the root is
  wrapped, not replaced.
\<close>

theorem C3_add_root_wraps_value:
  assumes "readback n h D = Some d"
  shows "\<exists>h1. add h D '''' value = (h1 @ [CObj [(''value'', value)]], Inr (VRef (length h1)))
           \<and> extends h h1 \<and> fresh h (VRef (length h1))
           \<and> (readback m h value = Some t \<longrightarrow>
                readback (Suc m) (h1 @ [CObj [(''value'', value)]]) (VRef (length h1))
                  = Some (JObj [(''value'', t)]))"
proof -
  from add_root [OF assms] obtain h1 where
    a: "add h D '''' value = (h1 @ [CObj [(''value'', value)]], Inr (VRef (length h1)))"
    and e: "extends h h1" by blast
  have f: "fresh h (VRef (length h1))" using extends_length [OF e] by simp
  have r: "readback (Suc m) (h1 @ [CObj [(''value'', value)]]) (VRef (length h1))
             = Some (JObj [(''value'', t)])" if v: "readback m h value = Some t"
  proof -
    have "extends h (h1 @ [CObj [(''value'', value)]])"
      using e extends_append extends_trans by blast
    then have "readback m (h1 @ [CObj [(''value'', value)]]) value = Some t"
      using readback_mono [OF v] by simp
    then show ?thesis by (simp add: cellAt_def)
  qed
  show ?thesis using a e f r by blast
qed

text \<open>
  C3 on \<open>initialObject\<close> with the value 7: the document takes the cells 0 to 3, its clone
  the cells 4 to 7, and the result is the new cell 8, \<open>{value: 7}\<close>.
\<close>

theorem C3_add_root_witness:
  "readback 3 initialHeap initialRef = Some initialObject
   \<and> snd (add initialHeap initialRef '''' (VNum (Fin 7))) = Inr (VRef 8)
   \<and> cellAt (fst (add initialHeap initialRef '''' (VNum (Fin 7)))) 8
        = Some (CObj [(''value'', VNum (Fin 7))])"
proof -
  note rb = initialObject_readback
  from C3_add_root_wraps_value [OF rb, of "VNum (Fin 7)" 0 "JNum (Fin 7)"] obtain h1 where
    a: "add initialHeap initialRef '''' (VNum (Fin 7))
          = (h1 @ [CObj [(''value'', VNum (Fin 7))]], Inr (VRef (length h1)))"
    by blast
  have len: "snd (add initialHeap initialRef '''' (VNum (Fin 7))) = Inr (VRef 8)"
    by (simp add: initialHeap_eq initialRef_eq add_def structuredClone_def interpretPath_def
          unescapeToken_def cellAt_def newCell_def eval_nat_numeral)
  then have l: "length h1 = 8" using a by simp
  have "(h1 @ [CObj [(''value'', VNum (Fin 7))]]) ! 8 = CObj [(''value'', VNum (Fin 7))]"
    using l nth_append_length [of h1] by simp
  then show ?thesis using rb a len l by (simp add: cellAt_def)
qed

subsection \<open>The frame of the mutating operations\<close>




subsection \<open>The fold of applyPatch\<close>

lemma foldl_foldStep_error: "foldl foldStep (h, Inl e) operations = (h, Inl e)"
  by (induction operations) (simp_all add: foldStep_def)

lemma reduceOperations_foldl:
  "reduceOperations h D operations = foldl foldStep (h, Inr D) operations"
proof (induction operations arbitrary: h D)
  case Nil
  show ?case by simp
next
  case (Cons operation operations)
  obtain h1 r where ap: "applyOperation h D operation = (h1, r)"
    by (cases "applyOperation h D operation")
  have st: "foldStep (h, Inr D) operation = (h1, r)"
    by (simp add: foldStep_def ap)
  show ?case
    by (cases r) (simp_all add: ap st foldl_foldStep_error Cons)
qed

lemma reduceOperations_append:
  "reduceOperations h D (pre @ post) =
     (case reduceOperations h D pre of
        (h1, Inl e) \<Rightarrow> (h1, Inl e)
      | (h1, Inr D1) \<Rightarrow> reduceOperations h1 D1 post)"
proof (induction pre arbitrary: h D)
  case Nil
  show ?case by simp
next
  case (Cons operation pre)
  obtain h1 r where ap: "applyOperation h D operation = (h1, r)"
    by (cases "applyOperation h D operation")
  show ?case
    by (cases r) (simp_all add: ap Cons)
qed

lemma applyPatch_no_hooks: "applyPatch h D operations None = reduceOperations h D operations"
  by (simp add: applyPatch_def split: prod.splits sum.splits)

lemma applyPatch_empty_hooks:
  "applyPatch h D operations (Some []) = reduceOperations h D operations"
  by (simp add: applyPatch_def split: prod.splits sum.splits)

text \<open>
  C2. For every document \<open>D\<close> and every operation list, \<open>applyPatch\<close> without hooks
  (none given, or an empty list) is the left-to-right fold of \<open>apply\<close> over the list,
  starting from \<open>D\<close>. The fold is fail-fast: when the operations before the i-th succeed
  and the i-th raises an error, the whole call raises that error and returns no document,
  whatever operations follow; and after a prefix that succeeds, the call goes on from the
  document that prefix produced.
\<close>

theorem C2_applyPatch_is_fail_fast_fold:
  "applyPatch h D operations None = foldl foldStep (h, Inr D) operations
   \<and> applyPatch h D operations (Some []) = applyPatch h D operations None
   \<and> (applyPatch h D pre None = (h1, Inr D1) \<longrightarrow>
        applyOperation h1 D1 operation = (h2, Inl e) \<longrightarrow>
        applyPatch h D (pre @ operation # post) None = (h2, Inl e))
   \<and> (applyPatch h D pre None = (h1, Inr D1) \<longrightarrow>
        applyPatch h D (pre @ post) None = applyPatch h1 D1 post None)"
  by (simp add: applyPatch_no_hooks applyPatch_empty_hooks reduceOperations_foldl [symmetric]
        reduceOperations_append)

text \<open>
  C2 on \<open>initialObject\<close>: a pass-through operation succeeds, the test operation after it
  raises, and the add operation that follows is not reached.
\<close>

theorem C2_applyPatch_witness:
  "applyPatch initialHeap initialRef [OtherOp] None = (initialHeap, Inr initialRef)
   \<and> applyOperation initialHeap initialRef (TestOp ''/a'' (VNum (Fin 1)))
        = (initialHeap, Inl TypeError)
   \<and> applyPatch initialHeap initialRef
        [OtherOp, TestOp ''/a'' (VNum (Fin 1)), AddOp '''' VNull] None
        = (initialHeap, Inl TypeError)"
proof -
  have a: "applyPatch initialHeap initialRef [OtherOp] None = (initialHeap, Inr initialRef)"
    by (simp add: applyPatch_def)
  have b: "applyOperation initialHeap initialRef (TestOp ''/a'' (VNum (Fin 1)))
             = (initialHeap, Inl TypeError)"
    by (simp add: test_def initialRef_eq evaluate_def)
  from C2_applyPatch_is_fail_fast_fold [of initialHeap initialRef "[OtherOp]" "[OtherOp]"
      initialHeap initialRef "TestOp ''/a'' (VNum (Fin 1))" initialHeap TypeError
      "[AddOp '''' VNull]"] a b
  show ?thesis by simp
qed

end
